theory Spec2Isabelle
  imports Main "HOL-Library.AList"
begin

section \<open>JavaScript values used by the plugin\<close>

text \<open>
  The plugin (\<^verbatim>\<open>src/plugin.tsx\<close>) reads untyped host data (\<^verbatim>\<open>declare const framer: any\<close>),
  so property and field values are JavaScript values.  A number is \<open>NaN\<close> or an integer:
  the only numbers the program computes are usage counts, blob sizes and the result of
  \<^verbatim>\<open>parseInt\<close>.  (\<open>Fin n\<close> stands for the double nearest to \<open>n\<close>, which is \<open>n\<close> itself up
  to \<open>2^53\<close>; \<open>-0\<close> is identified with \<open>0\<close>.)  A string is a list of 8-bit characters,
  which is what a header value is; \<open>Obj\<close> stands for any object (always truthy).
\<close>

datatype jsnum = NaN | Fin int

datatype jsval = Undefined | Null | Bool bool | Num jsnum | Str string | Obj

text \<open>\<^verbatim>\<open>ToBoolean\<close>: what \<^verbatim>\<open>if (v)\<close>, \<^verbatim>\<open>!v\<close> and \<^verbatim>\<open>a || b\<close> test.\<close>

fun truthy :: "jsval \<Rightarrow> bool" where
  "truthy Undefined = False"
| "truthy Null = False"
| "truthy (Bool b) = b"
| "truthy (Num NaN) = False"
| "truthy (Num (Fin n)) = (n \<noteq> 0)"
| "truthy (Str s) = (s \<noteq> [])"
| "truthy Obj = True"

text \<open>\<^verbatim>\<open>a || b\<close>: the left operand when it is truthy, the right one otherwise.\<close>

definition js_or :: "jsval \<Rightarrow> jsval \<Rightarrow> jsval" where
  "js_or a b = (if truthy a then a else b)"

text \<open>\<^verbatim>\<open>s.includes(t)\<close>: \<open>t\<close> occurs in \<open>s\<close> as a contiguous substring.\<close>

fun str_includes :: "string \<Rightarrow> string \<Rightarrow> bool" where
  "str_includes [] t = (t = [])"
| "str_includes (c # cs) t = (take (length t) (c # cs) = t \<or> str_includes cs t)"

definition host_substring :: string where
  "host_substring = ''framerusercontent.com''"

subsection \<open>\<^verbatim>\<open>parseInt\<close> with no radix argument\<close>

text \<open>
  ECMAScript \<^verbatim>\<open>parseInt(string)\<close>: leading white space is skipped, one sign is read, a
  prefix \<^verbatim>\<open>0x\<close> or \<^verbatim>\<open>0X\<close> selects radix 16 (radix 10 otherwise), and the longest prefix of
  digits of that radix is the value; when there is no digit the result is \<open>NaN\<close>.
\<close>

definition is_white_space :: "char \<Rightarrow> bool" where
  "is_white_space c = ((of_char c :: nat) \<in> {9, 10, 11, 12, 13, 32, 160})"

definition digit_value :: "char \<Rightarrow> nat option" where
  "digit_value c =
     (let n = (of_char c :: nat) in
      if 48 \<le> n \<and> n \<le> 57 then Some (n - 48)
      else if 97 \<le> n \<and> n \<le> 122 then Some (n - 87)
      else if 65 \<le> n \<and> n \<le> 90 then Some (n - 55)
      else None)"

definition is_digit :: "nat \<Rightarrow> char \<Rightarrow> bool" where
  "is_digit radix c = (case digit_value c of None \<Rightarrow> False | Some d \<Rightarrow> d < radix)"

definition digits_value :: "nat \<Rightarrow> string \<Rightarrow> nat" where
  "digits_value radix z = foldl (\<lambda>acc c. acc * radix + the (digit_value c)) 0 z"

definition parseInt :: "string \<Rightarrow> jsnum" where
  "parseInt input =
     (let s0 = dropWhile is_white_space input;
          negative = (s0 \<noteq> [] \<and> hd s0 = CHR ''-'');
          s1 = (if s0 \<noteq> [] \<and> (hd s0 = CHR ''+'' \<or> hd s0 = CHR ''-'') then tl s0 else s0);
          hex = (take 2 s1 = ''0x'' \<or> take 2 s1 = ''0X'');
          radix = (if hex then 16 else 10);
          s2 = (if hex then drop 2 s1 else s1);
          z = takeWhile (is_digit radix) s2
      in if z = [] then NaN
         else if negative then Fin (- int (digits_value radix z))
         else Fin (int (digits_value radix z)))"

section \<open>The Size Resolver: \<^verbatim>\<open>fetchSize\<close>\<close>

text \<open>
  The network is a parameter.  \<open>fetch_head net url\<close> is the outcome of
  \<^verbatim>\<open>fetch(url, { method: 'HEAD' })\<close> followed by \<^verbatim>\<open>res.headers.get('content-length')\<close>:
  the promise rejects, or the header is \<^verbatim>\<open>null\<close> (\<open>None\<close>) or a string.
  \<open>fetch_get net url\<close> is the outcome of \<^verbatim>\<open>fetch(url)\<close> followed by \<^verbatim>\<open>r.blob()\<close>:
  either promise may reject, or the blob has a size.
\<close>

datatype exn = TypeError | NetworkError

datatype head_outcome = HeadRejected | HeadResolved "string option"

datatype get_outcome = GetRejected | BlobRejected | BlobSize nat

record network =
  fetch_head :: "string \<Rightarrow> head_outcome"
  fetch_get :: "string \<Rightarrow> get_outcome"

text \<open>The requests a call issues, in order, are recorded beside its result.\<close>

datatype request = HEAD string | GET string

text \<open>
  The body of the \<^verbatim>\<open>try\<close> block, with the requests it issued; \<open>None\<close> is \<^verbatim>\<open>undefined\<close>.
  \<^verbatim>\<open>if (size)\<close> holds for a header that is a non-empty string (\<^verbatim>\<open>null\<close> and \<^verbatim>\<open>""\<close> are
  falsy).  \<^verbatim>\<open>fetch(url)\<close> is reached, and the GET issued, only past that test.
\<close>

definition fetchSize_try :: "network \<Rightarrow> string \<Rightarrow> (exn + jsnum option) \<times> request list" where
  "fetchSize_try net url =
     (case fetch_head net url of
        HeadRejected \<Rightarrow> (Inl NetworkError, [HEAD url])
      | HeadResolved size_hdr \<Rightarrow>
          if size_hdr \<noteq> None \<and> size_hdr \<noteq> Some []
          then (Inr (Some (parseInt (the size_hdr))), [HEAD url])
          else (case fetch_get net url of
                  GetRejected \<Rightarrow> Inl NetworkError
                | BlobRejected \<Rightarrow> Inl NetworkError
                | BlobSize n \<Rightarrow> Inr (Some (Fin (int n))),
                [HEAD url, GET url]))"

text \<open>\<^verbatim>\<open>try { ... } catch { return undefined }\<close>; \<open>Inl\<close> would be a rejected promise.\<close>

definition fetchSize_run :: "network \<Rightarrow> string \<Rightarrow> (exn + jsnum option) \<times> request list" where
  "fetchSize_run net url =
     (case fst (fetchSize_try net url) of Inl e \<Rightarrow> Inr None | Inr v \<Rightarrow> Inr v,
      snd (fetchSize_try net url))"

text \<open>What \<^verbatim>\<open>fetchSize\<close> resolves to, and the requests it issued.\<close>

definition fetchSize :: "network \<Rightarrow> string \<Rightarrow> exn + jsnum option" where
  "fetchSize net url = fst (fetchSize_run net url)"

definition fetchSize_requests :: "network \<Rightarrow> string \<Rightarrow> request list" where
  "fetchSize_requests net url = snd (fetchSize_run net url)"

section \<open>The host object graph\<close>

text \<open>
  The global \<^verbatim>\<open>framer\<close> object is external to the repository; the plugin only calls it.
  Its state is made explicit.  A canvas node handle is a position in \<open>canvas\<close>; a
  collection handle is represented by its \<^verbatim>\<open>id\<close>.  Every method the plugin calls through
  \<^verbatim>\<open>?.\<close> may be absent (the \<open>has_\<close> flags); \<^verbatim>\<open>framer.cms\<close> itself is read without \<^verbatim>\<open>?.\<close>,
  so \<open>cms = None\<close> (the property is undefined) makes that read throw a \<^verbatim>\<open>TypeError\<close>.
  A method that is present is assumed to return normally.
\<close>

type_synonym jsobject = "(string \<times> jsval) list"

record node =
  props :: "(string \<Rightarrow> jsval) option"
  has_setProps :: bool

record item =
  item_id :: string
  item_fields :: "jsobject option"

record cms =
  collection_ids :: "string list"
  cms_items :: "string \<Rightarrow> item list"
  has_getCollections :: bool
  has_getItems :: bool
  has_patchItem :: bool

record host =
  canvas :: "node list"
  has_getNodes :: bool
  cms :: "cms option"

text \<open>\<^verbatim>\<open>(await framer.getNodes?.()) || []\<close>\<close>

definition getNodes :: "host \<Rightarrow> node list" where
  "getNodes h = (if has_getNodes h then canvas h else [])"

text \<open>\<^verbatim>\<open>(await framer.cms.getCollections?.()) || []\<close>, once \<^verbatim>\<open>framer.cms\<close> has been read.\<close>

definition getCollections :: "cms \<Rightarrow> string list" where
  "getCollections c = (if has_getCollections c then collection_ids c else [])"

text \<open>\<^verbatim>\<open>(await framer.cms.getItems?.(col.id)) || []\<close>\<close>

definition getItems :: "cms \<Rightarrow> string \<Rightarrow> item list" where
  "getItems c cid = (if has_getItems c then cms_items c cid else [])"

text \<open>
  Modelled from the spec: the host's property-update operation of a node (section 6,
  "each exposing a property bag and a property-update operation") is not in the
  repository.  It stores each property of the update in the node's property bag and
  leaves the other properties as they are.
\<close>

definition setProps :: "node \<Rightarrow> jsobject \<Rightarrow> node" where
  "setProps n update =
     n\<lparr>props := Some (foldl (\<lambda>p kv. p(fst kv := snd kv))
                        (case props n of None \<Rightarrow> (\<lambda>_. Undefined) | Some p \<Rightarrow> p) update)\<rparr>"

text \<open>
  Modelled from the spec: the host's item-patch operation (section 6, "an item-patch
  operation taking a collection id, item id, and a replacement field mapping") is not in
  the repository.  It replaces the field mapping of the item with that id in that
  collection.
\<close>

definition patchItem :: "cms \<Rightarrow> string \<Rightarrow> string \<Rightarrow> jsobject \<Rightarrow> cms" where
  "patchItem c cid iid fs =
     c\<lparr>cms_items := (cms_items c)(cid :=
          map (\<lambda>it. if item_id it = iid then it\<lparr>item_fields := Some fs\<rparr> else it) (cms_items c cid))\<rparr>"

section \<open>The component state\<close>

text \<open>
  \<^verbatim>\<open>type ImageUsage = { url: string; count: number; size?: number }\<close>; the three
  \<^verbatim>\<open>React.useState\<close> cells of \<^verbatim>\<open>Plugin\<close>; and a log of the effects the component issues:
  the host's mutation calls and the calls of the state setters.
\<close>

record ImageUsage =
  url :: string
  count :: nat
  size_opt :: "jsnum option"

datatype effect =
    SetProps nat jsobject
  | PatchItem string string jsobject
  | SetImages "ImageUsage list"
  | SetSelected "(string \<times> bool) list"
  | SetNewUrl string

record world =
  framer :: host
  images :: "ImageUsage list"
  newUrl :: string
  selected :: "(string \<times> bool) list"
  effects :: "effect list"

text \<open>The outcome of an async function: it throws (with the world as it is then) or returns.\<close>

type_synonym outcome = "(exn \<times> world) + world"

section \<open>The Collector and \<^verbatim>\<open>scan\<close>\<close>

text \<open>
  \<^verbatim>\<open>usages\<close> is a plain object used as a dictionary; its keys are kept in insertion order,
  which \<^verbatim>\<open>Object.entries\<close> follows (no key is an array index: each contains the host
  substring).  \<^verbatim>\<open>usages[url] = (usages[url] || 0) + 1\<close>:
\<close>

type_synonym usages = "(string \<times> nat) list"

definition bump :: "usages \<Rightarrow> string \<Rightarrow> usages" where
  "bump us u = AList.update u ((case map_of us u of None \<Rightarrow> 0 | Some c \<Rightarrow> c) + 1) us"

text \<open>\<^verbatim>\<open>const props = node.props || {}; const url = props.image || props.src\<close>\<close>

definition node_url :: "node \<Rightarrow> jsval" where
  "node_url n =
     (let p = (case props n of None \<Rightarrow> (\<lambda>_. Undefined) | Some p \<Rightarrow> p)
      in js_or (p ''image'') (p ''src''))"

text \<open>\<^verbatim>\<open>typeof v === 'string' && v.includes('framerusercontent.com')\<close>\<close>

definition qualifies :: "jsval \<Rightarrow> bool" where
  "qualifies v = (case v of Str s \<Rightarrow> str_includes s host_substring | _ \<Rightarrow> False)"

text \<open>The string of a value that passed a \<^verbatim>\<open>typeof v === 'string'\<close> test.\<close>

fun str_of :: "jsval \<Rightarrow> string" where
  "str_of (Str s) = s"
| "str_of _ = []"

fun scan_nodes :: "node list \<Rightarrow> usages \<Rightarrow> usages" where
  "scan_nodes [] us = us"
| "scan_nodes (n # ns) us =
     scan_nodes ns (if qualifies (node_url n) then bump us (str_of (node_url n)) else us)"

text \<open>\<^verbatim>\<open>Object.values(item.fields || {})\<close>\<close>

definition field_values :: "item \<Rightarrow> jsval list" where
  "field_values it = map snd (case item_fields it of None \<Rightarrow> [] | Some fs \<Rightarrow> fs)"

fun scan_values :: "jsval list \<Rightarrow> usages \<Rightarrow> usages" where
  "scan_values [] us = us"
| "scan_values (v # vs) us =
     scan_values vs (if qualifies v then bump us (str_of v) else us)"

fun scan_items :: "item list \<Rightarrow> usages \<Rightarrow> usages" where
  "scan_items [] us = us"
| "scan_items (it # its) us = scan_items its (scan_values (field_values it) us)"

fun scan_collections :: "cms \<Rightarrow> string list \<Rightarrow> usages \<Rightarrow> usages" where
  "scan_collections c [] us = us"
| "scan_collections c (cid # cids) us =
     scan_collections c cids (scan_items (getItems c cid) us)"

text \<open>
  \<^verbatim>\<open>Promise.all(Object.entries(usages).map(async ([url, count]) => ...))\<close>: it rejects when
  a \<^verbatim>\<open>fetchSize\<close> promise rejects.
\<close>

fun resolve_sizes :: "network \<Rightarrow> usages \<Rightarrow> exn + ImageUsage list" where
  "resolve_sizes net [] = Inr []"
| "resolve_sizes net (uc # rest) =
     (case fetchSize net (fst uc) of
        Inl e \<Rightarrow> Inl e
      | Inr sz \<Rightarrow>
          (case resolve_sizes net rest of
             Inl e \<Rightarrow> Inl e
           | Inr l \<Rightarrow> Inr (\<lparr>url = fst uc, count = snd uc, size_opt = sz\<rparr> # l)))"

definition scan :: "network \<Rightarrow> world \<Rightarrow> outcome" where
  "scan net w =
     (let usages0 = scan_nodes (getNodes (framer w)) []
      in case cms (framer w) of
           None \<Rightarrow> Inl (TypeError, w)
         | Some c \<Rightarrow>
             (let usages1 = scan_collections c (getCollections c) usages0
              in case resolve_sizes net usages1 of
                   Inl e \<Rightarrow> Inl (e, w)
                 | Inr list \<Rightarrow>
                     Inr (w\<lparr>images := list, selected := [],
                             effects := effects w @ [SetImages list, SetSelected []]\<rparr>)))"

section \<open>The Replacer: \<^verbatim>\<open>replace\<close>\<close>

text \<open>\<^verbatim>\<open>Object.keys(selected).filter(k => selected[k])\<close>\<close>

definition targets_of :: "(string \<times> bool) list \<Rightarrow> string list" where
  "targets_of sel = filter (\<lambda>k. map_of sel k = Some True) (map fst sel)"

text \<open>\<^verbatim>\<open>typeof v === 'string' && targets.includes(v)\<close>\<close>

definition is_target :: "string list \<Rightarrow> jsval \<Rightarrow> bool" where
  "is_target targets v = (case v of Str s \<Rightarrow> s \<in> set targets | _ \<Rightarrow> False)"

text \<open>
  \<^verbatim>\<open>await node.setProps?.({ image: newUrl, src: newUrl })\<close> on the node at position \<open>i\<close>.
  A handle the loop holds is a position of the canvas; for any other position there is
  no node to call.
\<close>

definition call_setProps :: "nat \<Rightarrow> jsobject \<Rightarrow> world \<Rightarrow> world" where
  "call_setProps i update w =
     (if i < length (canvas (framer w)) \<and> has_setProps (canvas (framer w) ! i)
      then w\<lparr>framer := (framer w)\<lparr>canvas := (canvas (framer w))[i := setProps (canvas (framer w) ! i) update]\<rparr>,
             effects := effects w @ [SetProps i update]\<rparr>
      else w)"

text \<open>
  The loop over the array \<^verbatim>\<open>getNodes\<close> returned; \<open>i\<close> is the position of the head of the
  remaining list.
\<close>

fun replace_nodes :: "string list \<Rightarrow> string \<Rightarrow> nat \<Rightarrow> node list \<Rightarrow> world \<Rightarrow> world" where
  "replace_nodes targets nu i [] w = w"
| "replace_nodes targets nu i (n # ns) w =
     replace_nodes targets nu (Suc i) ns
       (if is_target targets (node_url n)
        then call_setProps i [(''image'', Str nu), (''src'', Str nu)] w
        else w)"

text \<open>
  The loop over \<^verbatim>\<open>Object.keys(fields)\<close> on the copy \<^verbatim>\<open>{ ...(item.fields || {}) }\<close>; the state
  of the loop is the copy and the flag \<^verbatim>\<open>changed\<close>.
\<close>

text \<open>\<^verbatim>\<open>fields[key]\<close>\<close>

definition field_lookup :: "jsobject \<Rightarrow> string \<Rightarrow> jsval" where
  "field_lookup fs k = (case map_of fs k of None \<Rightarrow> Undefined | Some v \<Rightarrow> v)"

fun replace_fields :: "string list \<Rightarrow> string \<Rightarrow> string list \<Rightarrow> jsobject \<times> bool \<Rightarrow> jsobject \<times> bool" where
  "replace_fields targets nu [] st = st"
| "replace_fields targets nu (key # keys) st =
     replace_fields targets nu keys
       (let val = field_lookup (fst st) key
        in if is_target targets val then (AList.update key (Str nu) (fst st), True) else st)"

text \<open>\<^verbatim>\<open>await framer.cms.patchItem?.(col.id, item.id, { fields })\<close>\<close>

definition call_patchItem :: "string \<Rightarrow> string \<Rightarrow> jsobject \<Rightarrow> cms \<times> effect list \<Rightarrow> cms \<times> effect list" where
  "call_patchItem cid iid fs ce =
     (if has_patchItem (fst ce)
      then (patchItem (fst ce) cid iid fs, snd ce @ [PatchItem cid iid fs])
      else ce)"

definition replace_item :: "string list \<Rightarrow> string \<Rightarrow> string \<Rightarrow> item \<Rightarrow> cms \<times> effect list \<Rightarrow> cms \<times> effect list" where
  "replace_item targets nu cid it ce =
     (let fields0 = (case item_fields it of None \<Rightarrow> [] | Some fs \<Rightarrow> fs);
          r = replace_fields targets nu (map fst fields0) (fields0, False)
      in if snd r then call_patchItem cid (item_id it) (fst r) ce else ce)"

fun replace_items :: "string list \<Rightarrow> string \<Rightarrow> string \<Rightarrow> item list \<Rightarrow> cms \<times> effect list \<Rightarrow> cms \<times> effect list" where
  "replace_items targets nu cid [] ce = ce"
| "replace_items targets nu cid (it # its) ce =
     replace_items targets nu cid its (replace_item targets nu cid it ce)"

fun replace_collections :: "string list \<Rightarrow> string \<Rightarrow> string list \<Rightarrow> cms \<times> effect list \<Rightarrow> cms \<times> effect list" where
  "replace_collections targets nu [] ce = ce"
| "replace_collections targets nu (cid # cids) ce =
     replace_collections targets nu cids
       (replace_items targets nu cid (getItems (fst ce) cid) ce)"

text \<open>
  The two mutation loops of \<^verbatim>\<open>replace\<close>, after its guard.  Reading \<^verbatim>\<open>framer.cms\<close> throws
  when the property is undefined; the node updates have been issued by then.
\<close>

definition replace_mutations :: "string list \<Rightarrow> string \<Rightarrow> world \<Rightarrow> outcome" where
  "replace_mutations targets nu w =
     (let w1 = replace_nodes targets nu 0 (getNodes (framer w)) w
      in case cms (framer w1) of
           None \<Rightarrow> Inl (TypeError, w1)
         | Some c \<Rightarrow>
             (let ce = replace_collections targets nu (getCollections c) (c, effects w1)
              in Inr (w1\<lparr>framer := (framer w1)\<lparr>cms := Some (fst ce)\<rparr>, effects := snd ce\<rparr>)))"

text \<open>
  \<^verbatim>\<open>replace\<close> reads \<^verbatim>\<open>selected\<close> and \<^verbatim>\<open>newUrl\<close> as they are when it is called;
  \<^verbatim>\<open>!newUrl\<close> holds for the empty string, \<^verbatim>\<open>!targets.length\<close> for the empty array.
\<close>

definition replace :: "network \<Rightarrow> world \<Rightarrow> outcome" where
  "replace net w =
     (let targets = targets_of (selected w)
      in if newUrl w = [] \<or> targets = [] then Inr w
         else (case replace_mutations targets (newUrl w) w of
                 Inl ew \<Rightarrow> Inl ew
               | Inr w2 \<Rightarrow>
                   (case scan net w2 of
                      Inl ew \<Rightarrow> Inl ew
                    | Inr w3 \<Rightarrow> Inr (w3\<lparr>newUrl := [], effects := effects w3 @ [SetNewUrl []]\<rparr>))))"

section \<open>Observations and example data\<close>

text \<open>The list a scan displays; \<open>None\<close> when \<^verbatim>\<open>scan\<close> throws.\<close>

definition scan_images :: "network \<Rightarrow> world \<Rightarrow> ImageUsage list option" where
  "scan_images net w = (case scan net w of Inl ew \<Rightarrow> None | Inr w' \<Rightarrow> Some (images w'))"

text \<open>The world an async function leaves behind, whether it returned or threw.\<close>

definition final_world :: "outcome \<Rightarrow> world" where
  "final_world r = (case r of Inl ew \<Rightarrow> snd ew | Inr w \<Rightarrow> w)"

text \<open>
  A small project: two canvas nodes and one collection item reference the image \<open>url_a\<close>
  (the first node in its \<^verbatim>\<open>image\<close> slot, the second in its \<^verbatim>\<open>src\<close> slot); the user has ticked
  \<open>url_a\<close> and typed \<open>url_c\<close>.
\<close>

definition url_a :: string where
  "url_a = ''https://framerusercontent.com/a.png''"

definition url_b :: string where
  "url_b = ''https://framerusercontent.com/b.png''"

definition url_c :: string where
  "url_c = ''https://framerusercontent.com/c.png''"

definition example_net :: network where
  "example_net = \<lparr>fetch_head = (\<lambda>_. HeadResolved (Some ''1024'')), fetch_get = (\<lambda>_. GetRejected)\<rparr>"

definition example_cms :: cms where
  "example_cms =
     \<lparr>collection_ids = [''c1''],
      cms_items = (\<lambda>_. [])(''c1'' :=
        [\<lparr>item_id = ''i1'', item_fields = Some [(''hero'', Str url_a), (''title'', Str ''Hello'')]\<rparr>]),
      has_getCollections = True, has_getItems = True, has_patchItem = True\<rparr>"

definition example_host :: host where
  "example_host =
     \<lparr>canvas = [\<lparr>props = Some ((\<lambda>_. Undefined)(''image'' := Str url_a)), has_setProps = True\<rparr>,
                \<lparr>props = Some ((\<lambda>_. Undefined)(''src'' := Str url_a)), has_setProps = True\<rparr>],
      has_getNodes = True,
      cms = Some example_cms\<rparr>"

definition example_world :: world where
  "example_world =
     \<lparr>framer = example_host, images = [], newUrl = url_c, selected = [(url_a, True)], effects = []\<rparr>"

section \<open>Counting occurrences\<close>

text \<open>
  What the Collector is specified to count, stated without its loops: the values equal
  to the string \<open>u\<close> among the resolved URLs of the enumerated nodes and among the field
  values of the enumerated items; only a \<open>u\<close> that contains the host substring qualifies.
\<close>

definition spec_value_occurrences :: "jsval list \<Rightarrow> string \<Rightarrow> nat" where
  "spec_value_occurrences vs u = length (filter (\<lambda>v. v = Str u) vs)"

definition spec_node_occurrences :: "host \<Rightarrow> string \<Rightarrow> nat" where
  "spec_node_occurrences h u = spec_value_occurrences (map node_url (getNodes h)) u"

definition spec_field_occurrences :: "cms \<Rightarrow> string \<Rightarrow> nat" where
  "spec_field_occurrences c u =
     sum_list (map (\<lambda>cid. sum_list (map (\<lambda>it. spec_value_occurrences (field_values it) u) (getItems c cid)))
                   (getCollections c))"

definition spec_occurrences :: "host \<Rightarrow> cms \<Rightarrow> string \<Rightarrow> nat" where
  "spec_occurrences h c u =
     (if str_includes u host_substring then spec_node_occurrences h u + spec_field_occurrences c u else 0)"

text \<open>Reading the dictionary \<^verbatim>\<open>usages\<close>, and its invariant: distinct keys, no zero count.\<close>

definition count_in :: "usages \<Rightarrow> string \<Rightarrow> nat" where
  "count_in us u = (case map_of us u of None \<Rightarrow> 0 | Some c \<Rightarrow> c)"

definition usages_ok :: "usages \<Rightarrow> bool" where
  "usages_ok us = (distinct (map fst us) \<and> (\<forall>k. map_of us k \<noteq> Some 0))"

section \<open>What the loops of \<^verbatim>\<open>replace\<close> amount to\<close>

text \<open>
  The node an iteration of the first loop leaves, and the effects the loop logs from
  position \<open>i\<close> on.
\<close>

definition replaced_node :: "string list \<Rightarrow> string \<Rightarrow> node \<Rightarrow> node" where
  "replaced_node tg nu n =
     (if is_target tg (node_url n) \<and> has_setProps n
      then setProps n [(''image'', Str nu), (''src'', Str nu)] else n)"

fun node_effects :: "string list \<Rightarrow> string \<Rightarrow> nat \<Rightarrow> node list \<Rightarrow> effect list" where
  "node_effects tg nu i [] = []"
| "node_effects tg nu i (n # ns) =
     (if is_target tg (node_url n) \<and> has_setProps n
      then [SetProps i [(''image'', Str nu), (''src'', Str nu)]] else [])
     @ node_effects tg nu (Suc i) ns"



text \<open>The property updates issued on the node at position \<open>i\<close>.\<close>

definition is_SetProps_on :: "nat \<Rightarrow> effect \<Rightarrow> bool" where
  "is_SetProps_on i e = (case e of SetProps j upd \<Rightarrow> j = i | _ \<Rightarrow> False)"






section \<open>Basic facts\<close>

lemma parseInt_empty: "parseInt [] = NaN"
  by (simp add: parseInt_def)

lemma fetchSize_returns: "\<exists>v. fetchSize net u = Inr v"
  by (simp add: fetchSize_def fetchSize_run_def split: sum.split)

lemma str_includes_nonempty: "str_includes s host_substring \<Longrightarrow> s \<noteq> []"
  by (cases s) (simp_all add: host_substring_def)

lemma qualifies_truthy: "qualifies v \<Longrightarrow> truthy v"
  by (cases v) (auto simp: qualifies_def dest: str_includes_nonempty)

lemma resolve_sizes_returns:
  "\<exists>l. resolve_sizes net us = Inr l \<and> map url l = map fst us \<and> map count l = map snd us"
proof (induction us)
  case Nil
  show ?case by simp
next
  case (Cons uc us)
  obtain v where v: "fetchSize net (fst uc) = Inr v"
    using fetchSize_returns by blast
  from Cons obtain l where
    "resolve_sizes net us = Inr l" "map url l = map fst us" "map count l = map snd us"
    by blast
  with v show ?case by simp
qed

lemma scan_throws_without_cms:
  "cms (framer w) = None \<Longrightarrow> scan net w = Inl (TypeError, w)"
  by (simp add: scan_def)

lemma scan_returns:
  assumes "cms (framer w) = Some c"
  shows "\<exists>l. resolve_sizes net
               (scan_collections c (getCollections c) (scan_nodes (getNodes (framer w)) [])) = Inr l
           \<and> scan net w =
               Inr (w\<lparr>images := l, selected := [], effects := effects w @ [SetImages l, SetSelected []]\<rparr>)"
proof -
  obtain l where
    "resolve_sizes net
       (scan_collections c (getCollections c) (scan_nodes (getNodes (framer w)) [])) = Inr l"
    using resolve_sizes_returns by blast
  then show ?thesis using assms by (simp add: scan_def)
qed

lemma scan_InrD:
  assumes "scan net w = Inr w'"
  shows "\<exists>c l. cms (framer w) = Some c
           \<and> resolve_sizes net
               (scan_collections c (getCollections c) (scan_nodes (getNodes (framer w)) [])) = Inr l
           \<and> w' = w\<lparr>images := l, selected := [], effects := effects w @ [SetImages l, SetSelected []]\<rparr>"
proof (cases "cms (framer w)")
  case None
  with assms show ?thesis by (simp add: scan_def)
next
  case (Some c)
  from scan_returns[OF Some, of net] assms show ?thesis using Some by auto
qed

lemmas fetchSize_eval = fetchSize_def fetchSize_requests_def fetchSize_run_def fetchSize_try_def
lemmas parseInt_eval = parseInt_def is_white_space_def is_digit_def digit_value_def digits_value_def
lemmas example_defs = example_world_def example_host_def example_cms_def example_net_def
lemmas url_defs = url_a_def url_b_def url_c_def
lemmas collector_eval = getNodes_def getCollections_def getItems_def node_url_def js_or_def
  qualifies_def host_substring_def bump_def field_values_def
lemmas replacer_eval = targets_of_def is_target_def call_setProps_def setProps_def
  replace_item_def call_patchItem_def patchItem_def replace_mutations_def field_lookup_def

section \<open>The Size Resolver\<close>

text \<open>
  C1 (as amended).  \<^verbatim>\<open>fetchSize\<close> never throws.  When the HEAD request fails it returns
  \<^verbatim>\<open>undefined\<close> and the HEAD is the only request it issued.  When the HEAD response carries
  a non-empty \<^verbatim>\<open>content-length\<close> header it returns \<^verbatim>\<open>parseInt\<close> of that header, again with
  the HEAD as its only request; for a parseable header that is the parsed integer.  When the
  header is missing or empty it issues a GET after the HEAD and returns the byte length of
  the body, or \<^verbatim>\<open>undefined\<close> when the GET or the blob read fails.  It returns \<^verbatim>\<open>undefined\<close>
  only when the HEAD request fails, or the header is missing or empty and the body fetch
  fails.
\<close>

theorem fetchSize_behaviour:
  "(\<exists>v. fetchSize net u = Inr v)
   \<and> (fetch_head net u = HeadRejected \<longrightarrow>
         fetchSize net u = Inr None \<and> fetchSize_requests net u = [HEAD u])
   \<and> (\<forall>s. fetch_head net u = HeadResolved (Some s) \<and> s \<noteq> [] \<longrightarrow>
          fetchSize net u = Inr (Some (parseInt s)) \<and> fetchSize_requests net u = [HEAD u])
   \<and> (\<forall>s n. fetch_head net u = HeadResolved (Some s) \<and> parseInt s = Fin n \<longrightarrow>
          fetchSize net u = Inr (Some (Fin n)) \<and> fetchSize_requests net u = [HEAD u])
   \<and> (fetch_head net u = HeadResolved None \<or> fetch_head net u = HeadResolved (Some []) \<longrightarrow>
         fetchSize_requests net u = [HEAD u, GET u]
         \<and> (\<forall>n. fetch_get net u = BlobSize n \<longrightarrow> fetchSize net u = Inr (Some (Fin (int n))))
         \<and> (fetch_get net u = GetRejected \<or> fetch_get net u = BlobRejected \<longrightarrow>
              fetchSize net u = Inr None))
   \<and> (fetchSize net u = Inr None \<longrightarrow>
         fetch_head net u = HeadRejected
         \<or> ((fetch_head net u = HeadResolved None \<or> fetch_head net u = HeadResolved (Some []))
            \<and> (fetch_get net u = GetRejected \<or> fetch_get net u = BlobRejected)))"
proof -
  have a: "\<exists>v. fetchSize net u = Inr v" by (rule fetchSize_returns)
  have b: "fetch_head net u = HeadRejected \<longrightarrow>
         fetchSize net u = Inr None \<and> fetchSize_requests net u = [HEAD u]"
    by (simp add: fetchSize_eval)
  have c: "\<forall>s. fetch_head net u = HeadResolved (Some s) \<and> s \<noteq> [] \<longrightarrow>
          fetchSize net u = Inr (Some (parseInt s)) \<and> fetchSize_requests net u = [HEAD u]"
    by (simp add: fetchSize_eval)
  have d: "\<forall>s n. fetch_head net u = HeadResolved (Some s) \<and> parseInt s = Fin n \<longrightarrow>
          fetchSize net u = Inr (Some (Fin n)) \<and> fetchSize_requests net u = [HEAD u]"
  proof (intro allI impI)
    fix s n assume h: "fetch_head net u = HeadResolved (Some s) \<and> parseInt s = Fin n"
    then have "s \<noteq> []" using parseInt_empty by auto
    with h c show "fetchSize net u = Inr (Some (Fin n)) \<and> fetchSize_requests net u = [HEAD u]"
      by simp
  qed
  have e: "fetch_head net u = HeadResolved None \<or> fetch_head net u = HeadResolved (Some []) \<longrightarrow>
         fetchSize_requests net u = [HEAD u, GET u]
         \<and> (\<forall>n. fetch_get net u = BlobSize n \<longrightarrow> fetchSize net u = Inr (Some (Fin (int n))))
         \<and> (fetch_get net u = GetRejected \<or> fetch_get net u = BlobRejected \<longrightarrow>
              fetchSize net u = Inr None)"
    by (auto simp: fetchSize_eval)
  have f: "fetchSize net u = Inr None \<longrightarrow>
         fetch_head net u = HeadRejected
         \<or> ((fetch_head net u = HeadResolved None \<or> fetch_head net u = HeadResolved (Some []))
            \<and> (fetch_get net u = GetRejected \<or> fetch_get net u = BlobRejected))"
    by (auto simp: fetchSize_eval
             split: head_outcome.splits get_outcome.splits if_splits)
  from a b c d e f show ?thesis by blast
qed

text \<open>
  The four paths at concrete networks: a header \<^verbatim>\<open>"1024"\<close>; no header and a body of 10
  bytes; no header and a failing GET; a failing HEAD with a GET that would succeed.
\<close>

theorem fetchSize_behaviour_witness:
  "fetchSize \<lparr>fetch_head = (\<lambda>_. HeadResolved (Some ''1024'')), fetch_get = (\<lambda>_. GetRejected)\<rparr> url_a
     = Inr (Some (Fin 1024))
   \<and> fetchSize_requests
        \<lparr>fetch_head = (\<lambda>_. HeadResolved (Some ''1024'')), fetch_get = (\<lambda>_. GetRejected)\<rparr> url_a
     = [HEAD url_a]
   \<and> fetchSize \<lparr>fetch_head = (\<lambda>_. HeadResolved None), fetch_get = (\<lambda>_. BlobSize 10)\<rparr> url_a
     = Inr (Some (Fin 10))
   \<and> fetchSize_requests \<lparr>fetch_head = (\<lambda>_. HeadResolved None), fetch_get = (\<lambda>_. BlobSize 10)\<rparr> url_a
     = [HEAD url_a, GET url_a]
   \<and> fetchSize \<lparr>fetch_head = (\<lambda>_. HeadResolved None), fetch_get = (\<lambda>_. GetRejected)\<rparr> url_a
     = Inr None
   \<and> fetchSize \<lparr>fetch_head = (\<lambda>_. HeadRejected), fetch_get = (\<lambda>_. BlobSize 10)\<rparr> url_a
     = Inr None
   \<and> fetchSize_requests \<lparr>fetch_head = (\<lambda>_. HeadRejected), fetch_get = (\<lambda>_. BlobSize 10)\<rparr> url_a
     = [HEAD url_a]"
proof -
  let ?n1 = "\<lparr>fetch_head = (\<lambda>_. HeadResolved (Some ''1024'')), fetch_get = (\<lambda>_. GetRejected)\<rparr>"
  let ?n2 = "\<lparr>fetch_head = (\<lambda>_. HeadResolved None), fetch_get = (\<lambda>_. BlobSize 10)\<rparr>"
  let ?n3 = "\<lparr>fetch_head = (\<lambda>_. HeadResolved None), fetch_get = (\<lambda>_. GetRejected)\<rparr>"
  let ?n4 = "\<lparr>fetch_head = (\<lambda>_. HeadRejected), fetch_get = (\<lambda>_. BlobSize 10)\<rparr>"
  have p: "parseInt ''1024'' = Fin 1024" by (simp add: parseInt_eval)
  have "fetch_head ?n1 url_a = HeadResolved (Some ''1024'') \<and> parseInt ''1024'' = Fin 1024"
    using p by simp
  with fetchSize_behaviour[of ?n1 url_a]
  have a: "fetchSize ?n1 url_a = Inr (Some (Fin 1024)) \<and> fetchSize_requests ?n1 url_a = [HEAD url_a]"
    by blast
  have h2: "fetch_head ?n2 url_a = HeadResolved None" "fetch_get ?n2 url_a = BlobSize 10"
    by simp_all
  with fetchSize_behaviour[of ?n2 url_a]
  have "fetchSize ?n2 url_a = Inr (Some (Fin (int 10)))" by blast
  then have b: "fetchSize ?n2 url_a = Inr (Some (Fin 10))" by simp
  from h2 fetchSize_behaviour[of ?n2 url_a]
  have b': "fetchSize_requests ?n2 url_a = [HEAD url_a, GET url_a]" by blast
  have "fetch_head ?n3 url_a = HeadResolved None" "fetch_get ?n3 url_a = GetRejected"
    by simp_all
  with fetchSize_behaviour[of ?n3 url_a]
  have c: "fetchSize ?n3 url_a = Inr None" by blast
  have "fetch_head ?n4 url_a = HeadRejected" by simp
  with fetchSize_behaviour[of ?n4 url_a]
  have d: "fetchSize ?n4 url_a = Inr None \<and> fetchSize_requests ?n4 url_a = [HEAD url_a]" by blast
  from a b b' c d show ?thesis by blast
qed

text \<open>
  The claim as stated fails in two ways.  A malformed header \<^verbatim>\<open>"abc"\<close> is truthy, so
  \<^verbatim>\<open>parseInt\<close> of it (\<open>NaN\<close>) is returned and no GET is issued for the body, 10 bytes long.
  And a failing HEAD request yields \<^verbatim>\<open>undefined\<close>, with no GET issued, although the GET would
  succeed.
\<close>

theorem fetchSize_malformed_header_counterexample:
  "parseInt ''abc'' = NaN
   \<and> fetchSize \<lparr>fetch_head = (\<lambda>_. HeadResolved (Some ''abc'')), fetch_get = (\<lambda>_. BlobSize 10)\<rparr> url_a
       = Inr (Some NaN)
   \<and> fetchSize \<lparr>fetch_head = (\<lambda>_. HeadResolved (Some ''abc'')), fetch_get = (\<lambda>_. BlobSize 10)\<rparr> url_a
       \<noteq> Inr (Some (Fin 10))
   \<and> fetchSize_requests
        \<lparr>fetch_head = (\<lambda>_. HeadResolved (Some ''abc'')), fetch_get = (\<lambda>_. BlobSize 10)\<rparr> url_a
       = [HEAD url_a]
   \<and> fetchSize \<lparr>fetch_head = (\<lambda>_. HeadRejected), fetch_get = (\<lambda>_. BlobSize 10)\<rparr> url_a
       = Inr None
   \<and> fetchSize_requests \<lparr>fetch_head = (\<lambda>_. HeadRejected), fetch_get = (\<lambda>_. BlobSize 10)\<rparr> url_a
       = [HEAD url_a]"
  by (simp add: fetchSize_eval parseInt_eval)

section \<open>Selection after a scan\<close>

text \<open>
  C9.  Whenever \<^verbatim>\<open>scan\<close> returns, the selection state it leaves is the empty mapping,
  whatever was selected before.
\<close>

theorem scan_clears_selection:
  "scan net w = Inr w' \<Longrightarrow> selected w' = []"
  by (drule scan_InrD) auto

theorem scan_clears_selection_witness:
  "selected example_world = [(url_a, True)]
   \<and> (\<exists>w'. scan example_net example_world = Inr w' \<and> selected w' = [])"
proof -
  have "cms (framer example_world) = Some example_cms"
    by (simp add: example_world_def example_host_def)
  from scan_returns[OF this, of example_net]
  obtain w' where h: "scan example_net example_world = Inr w'" by blast
  from scan_clears_selection[OF h] h show ?thesis
    by (auto simp: example_world_def)
qed

section \<open>The guard of \<^verbatim>\<open>replace\<close>\<close>

text \<open>
  C6.  When the replacement URL is empty or no URL is selected, \<^verbatim>\<open>replace\<close> returns at
  once and leaves the world as it was: the host, the component state and the log of
  effects (no mutation call, no state setter call, hence no rescan) are unchanged.
\<close>

theorem replace_noop:
  "newUrl w = [] \<or> targets_of (selected w) = [] \<Longrightarrow> replace net w = Inr w"
  by (auto simp: replace_def)

theorem replace_noop_witness:
  "replace example_net (example_world\<lparr>newUrl := []\<rparr>) = Inr (example_world\<lparr>newUrl := []\<rparr>)
   \<and> replace example_net (example_world\<lparr>selected := [(url_a, False)]\<rparr>)
       = Inr (example_world\<lparr>selected := [(url_a, False)]\<rparr>)"
  using replace_noop[of "example_world\<lparr>newUrl := []\<rparr>" example_net]
    replace_noop[of "example_world\<lparr>selected := [(url_a, False)]\<rparr>" example_net]
  by (simp add: targets_of_def)

section \<open>The Collector counts occurrences\<close>

lemma map_of_bump: "map_of (bump us u) = (map_of us)(u \<mapsto> count_in us u + 1)"
  by (simp add: bump_def count_in_def update_conv')

lemma count_in_bump: "count_in (bump us u) x = (if x = u then count_in us u + 1 else count_in us x)"
  by (simp add: count_in_def map_of_bump)

lemma usages_ok_bump: "usages_ok us \<Longrightarrow> usages_ok (bump us u)"
  by (simp add: usages_ok_def map_of_bump) (simp add: bump_def distinct_update)

lemma qualifies_Str: "qualifies v \<Longrightarrow> v = Str (str_of v)"
  by (cases v) (simp_all add: qualifies_def)

lemma scan_nodes_values: "scan_nodes ns us = scan_values (map node_url ns) us"
  by (induction ns arbitrary: us) simp_all

lemma scan_values_ok: "usages_ok us \<Longrightarrow> usages_ok (scan_values vs us)"
  by (induction vs arbitrary: us) (simp_all add: usages_ok_bump)

lemma scan_values_count:
  "count_in (scan_values vs us) u =
     count_in us u + (if str_includes u host_substring then spec_value_occurrences vs u else 0)"
proof (induction vs arbitrary: us)
  case Nil
  show ?case by (simp add: spec_value_occurrences_def)
next
  case (Cons v vs)
  show ?case
  proof (cases "qualifies v")
    case True
    then obtain s where v: "v = Str s" and s: "str_includes s host_substring"
      by (cases v) (simp_all add: qualifies_def)
    show ?thesis using Cons[of "bump us s"] v s True
      by (auto simp: count_in_bump spec_value_occurrences_def)
  next
    case False
    then have "str_includes u host_substring \<Longrightarrow> v \<noteq> Str u"
      by (auto simp: qualifies_def)
    with False show ?thesis using Cons[of us]
      by (auto simp: spec_value_occurrences_def)
  qed
qed

lemma scan_items_ok: "usages_ok us \<Longrightarrow> usages_ok (scan_items its us)"
  by (induction its arbitrary: us) (simp_all add: scan_values_ok)

lemma scan_items_count:
  "count_in (scan_items its us) u =
     count_in us u + (if str_includes u host_substring
                      then sum_list (map (\<lambda>it. spec_value_occurrences (field_values it) u) its) else 0)"
  by (induction its arbitrary: us) (simp_all add: scan_values_count)

lemma scan_collections_ok: "usages_ok us \<Longrightarrow> usages_ok (scan_collections c cids us)"
  by (induction cids arbitrary: us) (simp_all add: scan_items_ok)

lemma scan_collections_count:
  "count_in (scan_collections c cids us) u =
     count_in us u + (if str_includes u host_substring
                      then sum_list (map (\<lambda>cid. sum_list (map (\<lambda>it. spec_value_occurrences (field_values it) u)
                                                            (getItems c cid))) cids) else 0)"
  by (induction cids arbitrary: us) (simp_all add: scan_items_count)

lemma collector_count:
  "count_in (scan_collections c (getCollections c) (scan_nodes (getNodes h) [])) u = spec_occurrences h c u"
proof -
  have "count_in [] u = 0" by (simp add: count_in_def)
  then show ?thesis
    by (simp add: scan_collections_count scan_nodes_values scan_values_count spec_occurrences_def
        spec_node_occurrences_def spec_field_occurrences_def)
qed

lemma collector_ok:
  "usages_ok (scan_collections c (getCollections c) (scan_nodes (getNodes h) []))"
proof -
  have "usages_ok []" by (simp add: usages_ok_def)
  then show ?thesis
    by (simp add: scan_collections_ok scan_nodes_values scan_values_ok)
qed

lemma usages_ok_map_of:
  "usages_ok us \<Longrightarrow> map_of us u = (if count_in us u = 0 then None else Some (count_in us u))"
proof (cases "map_of us u")
  case None
  then show ?thesis by (simp add: count_in_def)
next
  case (Some n)
  moreover assume "usages_ok us"
  ultimately have "n \<noteq> 0" unfolding usages_ok_def by metis
  with Some show ?thesis by (simp add: count_in_def)
qed

lemma usages_of_images:
  "map url l = map fst us \<Longrightarrow> map count l = map snd us \<Longrightarrow> map (\<lambda>r. (url r, count r)) l = us"
proof (induction l arbitrary: us)
  case Nil
  then show ?case by simp
next
  case (Cons r l)
  then show ?case by (cases us) auto
qed

lemma scan_usages:
  assumes "scan net w = Inr w'" "cms (framer w) = Some c"
  shows "map (\<lambda>r. (url r, count r)) (images w')
           = scan_collections c (getCollections c) (scan_nodes (getNodes (framer w)) [])"
proof -
  from scan_InrD[OF assms(1)] assms(2) obtain l where
    l: "resolve_sizes net (scan_collections c (getCollections c) (scan_nodes (getNodes (framer w)) [])) = Inr l"
    and w': "images w' = l" by auto
  from resolve_sizes_returns[of net "scan_collections c (getCollections c) (scan_nodes (getNodes (framer w)) [])"] l
  have "map url l = map fst (scan_collections c (getCollections c) (scan_nodes (getNodes (framer w)) []))"
       "map count l = map snd (scan_collections c (getCollections c) (scan_nodes (getNodes (framer w)) []))"
    by auto
  then show ?thesis using w' by (simp add: usages_of_images)
qed

text \<open>
  C2.  When \<^verbatim>\<open>scan\<close> returns, the displayed list has one record per URL, and the count
  it reports for a URL is the number of qualifying occurrences in both sources together:
  one for every enumerated node whose resolved \<^verbatim>\<open>image || src\<close> value is that string, and
  one for every field of every enumerated item whose value is that string.  A URL with no
  occurrence (or without the host substring) has no record.
\<close>

theorem scan_counts_occurrences:
  assumes "scan net w = Inr w'" "cms (framer w) = Some c"
  shows "distinct (map url (images w'))
     \<and> map_of (map (\<lambda>r. (url r, count r)) (images w')) u
         = (if spec_occurrences (framer w) c u = 0 then None else Some (spec_occurrences (framer w) c u))
     \<and> (\<forall>r \<in> set (images w'). count r = spec_occurrences (framer w) c (url r) \<and> 0 < count r)"
proof -
  let ?us = "scan_collections c (getCollections c) (scan_nodes (getNodes (framer w)) [])"
  have eq: "map (\<lambda>r. (url r, count r)) (images w') = ?us"
    by (rule scan_usages[OF assms])
  have ok: "usages_ok ?us" by (rule collector_ok)
  have "map url (images w') = map fst (map (\<lambda>r. (url r, count r)) (images w'))"
    by simp
  then have d: "distinct (map url (images w'))"
    using ok unfolding eq by (simp add: usages_ok_def)
  have m: "map_of (map (\<lambda>r. (url r, count r)) (images w')) v
         = (if spec_occurrences (framer w) c v = 0 then None else Some (spec_occurrences (framer w) c v))" for v
    unfolding eq using usages_ok_map_of[OF ok, of v] by (simp add: collector_count)
  have "count r = spec_occurrences (framer w) c (url r) \<and> 0 < count r" if "r \<in> set (images w')" for r
  proof -
    from that have "(url r, count r) \<in> set (map (\<lambda>r. (url r, count r)) (images w'))"
      by force
    moreover have "distinct (map fst (map (\<lambda>r. (url r, count r)) (images w')))"
      using d by (simp add: comp_def)
    ultimately have "map_of (map (\<lambda>r. (url r, count r)) (images w')) (url r) = Some (count r)"
      by (rule map_of_is_SomeI[rotated])
    with m[of "url r"] show ?thesis by (auto split: if_splits)
  qed
  with d m show ?thesis by blast
qed

text \<open>The example project: two nodes and one item field hold \<open>url_a\<close>, and the count is 3.\<close>

theorem scan_counts_occurrences_witness:
  "spec_occurrences example_host example_cms url_a = 3
   \<and> (\<exists>w'. scan example_net example_world = Inr w'
          \<and> map_of (map (\<lambda>r. (url r, count r)) (images w')) url_a = Some 3)"
proof -
  have c: "cms (framer example_world) = Some example_cms" by (simp add: example_defs)
  from scan_returns[OF c, of example_net] obtain w' where s: "scan example_net example_world = Inr w'"
    by blast
  have o: "spec_occurrences example_host example_cms url_a = 3"
    by (simp add: spec_occurrences_def spec_node_occurrences_def spec_field_occurrences_def spec_value_occurrences_def
        example_defs collector_eval url_defs)
  have f: "framer example_world = example_host" by (simp add: example_defs)
  from scan_counts_occurrences[OF s c, of url_a, unfolded f o]
  have "map_of (map (\<lambda>r. (url r, count r)) (images w')) url_a = Some 3"
    by simp
  with s o show ?thesis by blast
qed

section \<open>Priority of the \<^verbatim>\<open>image\<close> slot\<close>

text \<open>
  C3 (as amended).  For a node whose \<^verbatim>\<open>image\<close> slot holds a non-empty string, that string
  is the node's URL and the \<^verbatim>\<open>src\<close> slot is ignored: the node contributes to the count of
  the \<^verbatim>\<open>image\<close> string (when it qualifies) and to no other.  A qualifying string is never
  empty, so when both slots hold qualifying strings only the \<^verbatim>\<open>image\<close> URL is counted.
  When the \<^verbatim>\<open>image\<close> slot holds the empty string, the \<^verbatim>\<open>src\<close> slot is read instead.
\<close>

theorem primary_slot_priority:
  assumes "props n = Some p" "p ''image'' = Str s"
  shows "(s \<noteq> [] \<longrightarrow>
            node_url n = Str s
            \<and> scan_nodes (n # ns) us =
                scan_nodes ns (if str_includes s host_substring then bump us s else us))
         \<and> (str_includes s host_substring \<longrightarrow> s \<noteq> [])
         \<and> (s = [] \<longrightarrow> node_url n = p ''src'')"
  using assms by (auto simp: node_url_def js_or_def qualifies_def dest: str_includes_nonempty)

theorem primary_slot_priority_witness:
  "node_url \<lparr>props = Some ((\<lambda>_. Undefined)(''image'' := Str url_a, ''src'' := Str url_b)), has_setProps = True\<rparr>
     = Str url_a
   \<and> scan_nodes [\<lparr>props = Some ((\<lambda>_. Undefined)(''image'' := Str url_a, ''src'' := Str url_b)), has_setProps = True\<rparr>] []
     = [(url_a, 1)]"
proof -
  let ?p = "(\<lambda>_. Undefined)(''image'' := Str url_a, ''src'' := Str url_b)"
  let ?n = "\<lparr>props = Some ?p, has_setProps = True\<rparr>"
  have p: "props ?n = Some ?p" by simp
  have i: "?p ''image'' = Str url_a" by simp
  have ne: "url_a \<noteq> []" by (simp add: url_a_def)
  have q: "str_includes url_a host_substring" by (simp add: url_a_def host_substring_def)
  from primary_slot_priority[OF p i, of "[]" "[]"] ne
  have "node_url ?n = Str url_a"
    and "scan_nodes [?n] [] = scan_nodes [] (if str_includes url_a host_substring then bump [] url_a else [])"
    by blast+
  with q show ?thesis by (simp add: bump_def)
qed

text \<open>
  The claim as stated fails for the empty string: \<^verbatim>\<open>"" || props.src\<close> is \<^verbatim>\<open>props.src\<close>, so
  a node with \<^verbatim>\<open>image: ""\<close> and a qualifying \<^verbatim>\<open>src\<close> is counted under its \<^verbatim>\<open>src\<close> URL.
\<close>

theorem empty_primary_slot_counterexample:
  "node_url \<lparr>props = Some ((\<lambda>_. Undefined)(''image'' := Str [], ''src'' := Str url_a)), has_setProps = True\<rparr>
     = Str url_a
   \<and> scan_nodes [\<lparr>props = Some ((\<lambda>_. Undefined)(''image'' := Str [], ''src'' := Str url_a)), has_setProps = True\<rparr>] []
     = [(url_a, 1)]"
  by (simp add: node_url_def js_or_def qualifies_def host_substring_def url_a_def bump_def)

section \<open>Missing host methods\<close>

lemma scan_collections_cong:
  "(\<And>cid. cid \<in> set cids \<Longrightarrow> getItems c cid = getItems c' cid) \<Longrightarrow>
   scan_collections c cids us = scan_collections c' cids us"
  by (induction cids arbitrary: us) simp_all

lemma scan_images_unfold:
  "scan_images net w =
     (case cms (framer w) of
        None \<Rightarrow> None
      | Some c \<Rightarrow>
          (case resolve_sizes net
                  (scan_collections c (getCollections c) (scan_nodes (getNodes (framer w)) [])) of
             Inl e \<Rightarrow> None
           | Inr l \<Rightarrow> Some l))"
  by (simp add: scan_images_def scan_def split: option.split sum.split)

text \<open>
  What the optional calls achieve: on a host that has the \<^verbatim>\<open>framer.cms\<close> object, \<^verbatim>\<open>scan\<close>
  returns without throwing whichever of \<^verbatim>\<open>getNodes\<close>, \<^verbatim>\<open>getCollections\<close> and \<^verbatim>\<open>getItems\<close>
  are missing, and a missing method gives the same list as a method that returns the
  empty sequence.
\<close>

lemma scan_tolerates_missing_methods:
  assumes "cms (framer w) = Some c"
  shows "(\<exists>w'. scan net w = Inr w')
    \<and> (\<not> has_getNodes (framer w) \<longrightarrow>
         scan_images net w = scan_images net (w\<lparr>framer := (framer w)\<lparr>has_getNodes := True, canvas := []\<rparr>\<rparr>))
    \<and> (\<not> has_getCollections c \<longrightarrow>
         scan_images net w =
           scan_images net (w\<lparr>framer := (framer w)\<lparr>cms := Some (c\<lparr>has_getCollections := True, collection_ids := []\<rparr>)\<rparr>\<rparr>))
    \<and> (\<not> has_getItems c \<longrightarrow>
         scan_images net w =
           scan_images net (w\<lparr>framer := (framer w)\<lparr>cms := Some (c\<lparr>has_getItems := True, cms_items := (\<lambda>_. [])\<rparr>)\<rparr>\<rparr>))"
proof -
  have a: "\<exists>w'. scan net w = Inr w'"
    using scan_returns[OF assms, of net] by blast
  have b: "\<not> has_getNodes (framer w) \<longrightarrow>
         scan_images net w = scan_images net (w\<lparr>framer := (framer w)\<lparr>has_getNodes := True, canvas := []\<rparr>\<rparr>)"
    using assms by (simp add: scan_images_unfold getNodes_def)
  have c: "\<not> has_getCollections c \<longrightarrow>
         scan_images net w =
           scan_images net (w\<lparr>framer := (framer w)\<lparr>cms := Some (c\<lparr>has_getCollections := True, collection_ids := []\<rparr>)\<rparr>\<rparr>)"
    using assms by (simp add: scan_images_unfold getNodes_def getCollections_def)
  have d: "\<not> has_getItems c \<longrightarrow>
         scan_images net w =
           scan_images net (w\<lparr>framer := (framer w)\<lparr>cms := Some (c\<lparr>has_getItems := True, cms_items := (\<lambda>_. [])\<rparr>)\<rparr>\<rparr>)"
  proof
    assume h: "\<not> has_getItems c"
    have "scan_collections c (getCollections c) us
            = scan_collections (c\<lparr>has_getItems := True, cms_items := (\<lambda>_. [])\<rparr>) (getCollections c) us" for us
      by (rule scan_collections_cong) (simp add: getItems_def h)
    then show "scan_images net w =
           scan_images net (w\<lparr>framer := (framer w)\<lparr>cms := Some (c\<lparr>has_getItems := True, cms_items := (\<lambda>_. [])\<rparr>)\<rparr>\<rparr>)"
      using assms by (simp add: scan_images_unfold getNodes_def getCollections_def)
  qed
  from a b c d show ?thesis by blast
qed

lemma scan_tolerates_missing_methods_example:
  "(\<exists>w'. scan example_net
            (example_world\<lparr>framer := example_host\<lparr>has_getNodes := False,
               cms := Some (example_cms\<lparr>has_getCollections := False, has_getItems := False\<rparr>)\<rparr>\<rparr>) = Inr w')
   \<and> scan_images example_net
            (example_world\<lparr>framer := example_host\<lparr>has_getNodes := False,
               cms := Some (example_cms\<lparr>has_getCollections := False, has_getItems := False\<rparr>)\<rparr>\<rparr>) = Some []
   \<and> scan_images example_net (example_world\<lparr>framer := example_host\<lparr>has_getNodes := False\<rparr>\<rparr>)
       = Some [\<lparr>url = url_a, count = 1, size_opt = Some (Fin 1024)\<rparr>]"
  using scan_tolerates_missing_methods
    [of "example_world\<lparr>framer := example_host\<lparr>has_getNodes := False,
               cms := Some (example_cms\<lparr>has_getCollections := False, has_getItems := False\<rparr>)\<rparr>\<rparr>"
        "example_cms\<lparr>has_getCollections := False, has_getItems := False\<rparr>" example_net]
    scan_tolerates_missing_methods
    [of "example_world\<lparr>framer := example_host\<lparr>has_getNodes := False\<rparr>\<rparr>" example_cms example_net]
  by (simp add: example_defs scan_images_unfold collector_eval url_defs fetchSize_eval parseInt_eval)

text \<open>
  C4.  The code breaks the claim on a host without the \<^verbatim>\<open>cms\<close> object, where collection
  and item enumeration are unavailable.  Every host call is written \<^verbatim>\<open>?.()\<close> with \<^verbatim>\<open>|| []\<close>,
  and a missing \<^verbatim>\<open>framer.getNodes\<close> is tolerated, but \<^verbatim>\<open>framer.cms\<close> itself is read without
  \<^verbatim>\<open>?.\<close>: \<^verbatim>\<open>framer.cms.getCollections\<close> throws a \<^verbatim>\<open>TypeError\<close>, \<^verbatim>\<open>scan\<close> produces no list, and
  \<^verbatim>\<open>replace\<close> throws after it has issued its node updates.  On the same project with
  \<^verbatim>\<open>getNodes\<close> missing instead, \<^verbatim>\<open>scan\<close> returns the list of the remaining source.
\<close>

theorem scan_throws_when_cms_missing:
  "scan example_net (example_world\<lparr>framer := example_host\<lparr>cms := None\<rparr>\<rparr>)
     = Inl (TypeError, example_world\<lparr>framer := example_host\<lparr>cms := None\<rparr>\<rparr>)
   \<and> scan_images example_net (example_world\<lparr>framer := example_host\<lparr>cms := None\<rparr>\<rparr>) = None
   \<and> (case replace example_net (example_world\<lparr>framer := example_host\<lparr>cms := None\<rparr>\<rparr>) of
         Inl ew \<Rightarrow> fst ew = TypeError
                   \<and> effects (snd ew) = [SetProps 0 [(''image'', Str url_c), (''src'', Str url_c)],
                                          SetProps 1 [(''image'', Str url_c), (''src'', Str url_c)]]
       | Inr w' \<Rightarrow> False)
   \<and> scan_images example_net (example_world\<lparr>framer := example_host\<lparr>has_getNodes := False\<rparr>\<rparr>)
       = Some [\<lparr>url = url_a, count = 1, size_opt = Some (Fin 1024)\<rparr>]"
proof -
  have a: "scan example_net (example_world\<lparr>framer := example_host\<lparr>cms := None\<rparr>\<rparr>)
     = Inl (TypeError, example_world\<lparr>framer := example_host\<lparr>cms := None\<rparr>\<rparr>)"
    by (simp add: scan_def)
  have b: "scan_images example_net (example_world\<lparr>framer := example_host\<lparr>cms := None\<rparr>\<rparr>) = None"
    by (simp add: scan_images_def scan_def)
  have c: "(case replace example_net (example_world\<lparr>framer := example_host\<lparr>cms := None\<rparr>\<rparr>) of
         Inl ew \<Rightarrow> fst ew = TypeError
                   \<and> effects (snd ew) = [SetProps 0 [(''image'', Str url_c), (''src'', Str url_c)],
                                          SetProps 1 [(''image'', Str url_c), (''src'', Str url_c)]]
       | Inr w' \<Rightarrow> False)"
    by code_simp
  have d: "scan_images example_net (example_world\<lparr>framer := example_host\<lparr>has_getNodes := False\<rparr>\<rparr>)
       = Some [\<lparr>url = url_a, count = 1, size_opt = Some (Fin 1024)\<rparr>]"
    by code_simp
  show ?thesis by (rule conjI[OF a conjI[OF b conjI[OF c d]]])
qed

section \<open>After a replacement\<close>

lemma replace_InrD:
  assumes "newUrl w \<noteq> []" "targets_of (selected w) \<noteq> []" "replace net w = Inr w'"
  shows "\<exists>w2 w3. replace_mutations (targets_of (selected w)) (newUrl w) w = Inr w2
            \<and> scan net w2 = Inr w3
            \<and> w' = w3\<lparr>newUrl := [], effects := effects w3 @ [SetNewUrl []]\<rparr>"
  using assms by (auto simp: replace_def split: sum.splits)

text \<open>
  C8.  When \<^verbatim>\<open>replace\<close> passes its guard and returns, it has run a scan on the host as
  the mutation loops left it (the displayed list is that scan's list, the selection is
  empty) and then cleared the replacement input: the last three effects are the scan's
  \<^verbatim>\<open>setImages\<close> and \<^verbatim>\<open>setSelected({})\<close> and then \<^verbatim>\<open>setNewUrl('')\<close>.  Nothing in this depends
  on how many references changed.
\<close>

theorem replace_rescans_and_clears:
  assumes "newUrl w \<noteq> []" "targets_of (selected w) \<noteq> []" "replace net w = Inr w'"
  shows "\<exists>w2 w3. replace_mutations (targets_of (selected w)) (newUrl w) w = Inr w2
            \<and> scan net w2 = Inr w3
            \<and> images w' = images w3 \<and> framer w' = framer w2 \<and> selected w' = []
            \<and> newUrl w' = []
            \<and> effects w' = effects w2 @ [SetImages (images w'), SetSelected [], SetNewUrl []]"
proof -
  from replace_InrD[OF assms] obtain w2 w3 where
    m: "replace_mutations (targets_of (selected w)) (newUrl w) w = Inr w2"
    and s: "scan net w2 = Inr w3"
    and w': "w' = w3\<lparr>newUrl := [], effects := effects w3 @ [SetNewUrl []]\<rparr>"
    by blast
  from scan_InrD[OF s] obtain l where
    "w3 = w2\<lparr>images := l, selected := [], effects := effects w2 @ [SetImages l, SetSelected []]\<rparr>"
    by blast
  with m s w' show ?thesis by simp
qed

text \<open>No reference matches the selected \<open>url_b\<close>: the host is unchanged, the rest happens.\<close>

theorem replace_rescans_and_clears_witness:
  "\<exists>w'. replace example_net (example_world\<lparr>selected := [(url_b, True)]\<rparr>) = Inr w'
        \<and> framer w' = example_host \<and> newUrl w' = [] \<and> selected w' = []
        \<and> effects w' = [SetImages (images w'), SetSelected [], SetNewUrl []]"
proof -
  let ?w = "example_world\<lparr>selected := [(url_b, True)]\<rparr>"
  have n: "newUrl ?w \<noteq> []" by (simp add: example_defs url_defs)
  have t: "targets_of (selected ?w) \<noteq> []" by (simp add: targets_of_def)
  have m: "replace_mutations (targets_of (selected ?w)) (newUrl ?w) ?w = Inr ?w"
    by (simp add: example_defs url_defs collector_eval replacer_eval)
  have "cms (framer ?w) = Some example_cms" by (simp add: example_defs)
  from scan_returns[OF this, of example_net] obtain w3 where "scan example_net ?w = Inr w3"
    by blast
  with n t m obtain w' where r: "replace example_net ?w = Inr w'"
    by (simp add: replace_def)
  from replace_rescans_and_clears[OF n t r] m r show ?thesis
    by (auto simp: example_defs)
qed

section \<open>The loop over the nodes\<close>

lemma replace_nodes_spec:
  "drop i (canvas (framer w)) = ns \<Longrightarrow>
   replace_nodes tg nu i ns w =
     w\<lparr>framer := (framer w)\<lparr>canvas := take i (canvas (framer w)) @ map (replaced_node tg nu) ns\<rparr>,
       effects := effects w @ node_effects tg nu i ns\<rparr>"
proof (induction ns arbitrary: i w)
  case Nil
  then have "length (canvas (framer w)) \<le> i" by simp
  then show ?case by simp
next
  case (Cons n ns)
  let ?cv = "canvas (framer w)"
  from Cons.prems have i: "i < length ?cv"
    by (metis drop_all leI list.distinct(1))
  from Cons.prems i have n: "?cv ! i = n"
    by (metis Cons_nth_drop_Suc list.inject)
  from Cons.prems i have d: "drop (Suc i) ?cv = ns"
    by (metis Cons_nth_drop_Suc list.inject)
  have t: "take (Suc i) ?cv = take i ?cv @ [n]"
    using i n by (simp add: take_Suc_conv_app_nth)
  show ?case
  proof (cases "is_target tg (node_url n) \<and> has_setProps n")
    case True
    let ?w1 = "call_setProps i [(''image'', Str nu), (''src'', Str nu)] w"
    have w1: "?w1 = w\<lparr>framer := (framer w)\<lparr>canvas := ?cv[i := replaced_node tg nu n]\<rparr>,
                       effects := effects w @ [SetProps i [(''image'', Str nu), (''src'', Str nu)]]\<rparr>"
      using True n i by (simp add: call_setProps_def replaced_node_def)
    have d1: "drop (Suc i) (canvas (framer ?w1)) = ns"
      using d by (simp add: w1)
    have t1: "take (Suc i) (canvas (framer ?w1)) = take i ?cv @ [replaced_node tg nu n]"
      using i by (simp add: w1 take_Suc_conv_app_nth)
    from True have "replace_nodes tg nu i (n # ns) w = replace_nodes tg nu (Suc i) ns ?w1"
      by simp
    also have "\<dots> = ?w1\<lparr>framer := (framer ?w1)\<lparr>canvas := take (Suc i) (canvas (framer ?w1)) @ map (replaced_node tg nu) ns\<rparr>,
                          effects := effects ?w1 @ node_effects tg nu (Suc i) ns\<rparr>"
      by (rule Cons.IH[OF d1])
    also have "\<dots> = w\<lparr>framer := (framer w)\<lparr>canvas := take i ?cv @ map (replaced_node tg nu) (n # ns)\<rparr>,
                          effects := effects w @ node_effects tg nu i (n # ns)\<rparr>"
      unfolding t1 using True by (simp add: w1)
    finally show ?thesis .
  next
    case False
    have r: "replaced_node tg nu n = n" using False by (auto simp: replaced_node_def)
    have w1: "(if is_target tg (node_url n)
               then call_setProps i [(''image'', Str nu), (''src'', Str nu)] w else w) = w"
      using False n i by (simp add: call_setProps_def)
    have "replace_nodes tg nu i (n # ns) w = replace_nodes tg nu (Suc i) ns w"
      by (simp only: replace_nodes.simps w1)
    also have "\<dots> = w\<lparr>framer := (framer w)\<lparr>canvas := take (Suc i) ?cv @ map (replaced_node tg nu) ns\<rparr>,
                          effects := effects w @ node_effects tg nu (Suc i) ns\<rparr>"
      by (rule Cons.IH[OF d])
    also have "\<dots> = w\<lparr>framer := (framer w)\<lparr>canvas := take i ?cv @ map (replaced_node tg nu) (n # ns)\<rparr>,
                          effects := effects w @ node_effects tg nu i (n # ns)\<rparr>"
      unfolding t using False r by simp
    finally show ?thesis .
  qed
qed

lemma replace_nodes_all:
  "replace_nodes tg nu 0 (getNodes (framer w)) w =
     w\<lparr>framer := (framer w)\<lparr>canvas := (if has_getNodes (framer w)
                                         then map (replaced_node tg nu) (canvas (framer w))
                                         else canvas (framer w))\<rparr>,
       effects := effects w @ node_effects tg nu 0 (getNodes (framer w))\<rparr>"
proof (cases "has_getNodes (framer w)")
  case True
  have "drop 0 (canvas (framer w)) = canvas (framer w)" by simp
  from replace_nodes_spec[OF this, of tg nu] True show ?thesis
    by (simp add: getNodes_def)
next
  case False
  then show ?thesis by (simp add: getNodes_def)
qed

lemma node_effects_filter:
  "filter (is_SetProps_on j) (node_effects tg nu i ns) =
     (if i \<le> j \<and> j < i + length ns \<and> is_target tg (node_url (ns ! (j - i))) \<and> has_setProps (ns ! (j - i))
      then [SetProps j [(''image'', Str nu), (''src'', Str nu)]] else [])"
proof (induction ns arbitrary: i)
  case Nil
  show ?case by simp
next
  case (Cons n ns)
  show ?case
  proof (cases "j = i")
    case True
    then show ?thesis using Cons[of "Suc i"] by (simp add: is_SetProps_on_def)
  next
    case False
    then have "i \<le> j \<Longrightarrow> (n # ns) ! (j - i) = ns ! (j - Suc i)"
      by (simp add: nth_Cons')
    with False show ?thesis using Cons[of "Suc i"]
      by (auto simp: is_SetProps_on_def)
  qed
qed





section \<open>The loop over the fields of an item\<close>










section \<open>The loops over items and collections\<close>

lemma replace_item_effects:
  "filter (is_SetProps_on j) (snd (replace_item tg nu cid it ce)) = filter (is_SetProps_on j) (snd ce)"
  by (simp add: replace_item_def call_patchItem_def Let_def is_SetProps_on_def)

lemma replace_items_effects:
  "filter (is_SetProps_on j) (snd (replace_items tg nu cid its ce)) = filter (is_SetProps_on j) (snd ce)"
  by (induction its arbitrary: ce) (simp_all add: replace_item_effects)

lemma replace_collections_effects:
  "filter (is_SetProps_on j) (snd (replace_collections tg nu cids ce)) = filter (is_SetProps_on j) (snd ce)"
  by (induction cids arbitrary: ce) (simp_all add: replace_items_effects)







section \<open>The mutations of \<^verbatim>\<open>replace\<close>\<close>

lemma replace_mutations_returns:
  assumes "cms (framer w) = Some c"
  shows "\<exists>w2. replace_mutations tg nu w = Inr w2
     \<and> canvas (framer w2) = (if has_getNodes (framer w)
                              then map (replaced_node tg nu) (canvas (framer w))
                              else canvas (framer w))
     \<and> has_getNodes (framer w2) = has_getNodes (framer w)
     \<and> cms (framer w2) =
          Some (fst (replace_collections tg nu (getCollections c)
                       (c, effects w @ node_effects tg nu 0 (getNodes (framer w)))))
     \<and> effects w2 =
          snd (replace_collections tg nu (getCollections c)
                 (c, effects w @ node_effects tg nu 0 (getNodes (framer w))))"
  unfolding replace_mutations_def replace_nodes_all using assms by (simp add: Let_def)

lemma replace_mutations_throws:
  assumes "cms (framer w) = None"
  shows "\<exists>w1. replace_mutations tg nu w = Inl (TypeError, w1)
     \<and> effects w1 = effects w @ node_effects tg nu 0 (getNodes (framer w))"
  unfolding replace_mutations_def replace_nodes_all using assms by (simp add: Let_def)


lemma replace_effects_on_node:
  assumes "newUrl w \<noteq> []" "targets_of (selected w) \<noteq> []"
  shows "filter (is_SetProps_on j) (effects (final_world (replace net w)))
           = filter (is_SetProps_on j)
               (effects w @ node_effects (targets_of (selected w)) (newUrl w) 0 (getNodes (framer w)))"
proof (cases "cms (framer w)")
  case None
  from replace_mutations_throws[OF None, of "targets_of (selected w)" "newUrl w"] assms
  show ?thesis by (auto simp: replace_def final_world_def)
next
  case (Some c)
  let ?tg = "targets_of (selected w)"
  from replace_mutations_returns[OF Some, of ?tg "newUrl w"] obtain w2 where
    m: "replace_mutations ?tg (newUrl w) w = Inr w2"
    and c2: "cms (framer w2) =
          Some (fst (replace_collections ?tg (newUrl w) (getCollections c)
                       (c, effects w @ node_effects ?tg (newUrl w) 0 (getNodes (framer w)))))"
    and e2: "effects w2 =
          snd (replace_collections ?tg (newUrl w) (getCollections c)
                 (c, effects w @ node_effects ?tg (newUrl w) 0 (getNodes (framer w))))"
    by blast
  from scan_returns[OF c2, of net] obtain l where
    s: "scan net w2 = Inr (w2\<lparr>images := l, selected := [], effects := effects w2 @ [SetImages l, SetSelected []]\<rparr>)"
    by blast
  have "filter (is_SetProps_on j) (effects (final_world (replace net w)))
          = filter (is_SetProps_on j) (effects w2)"
    using assms m s by (simp add: replace_def final_world_def is_SetProps_on_def)
  then show ?thesis unfolding e2 replace_collections_effects by simp
qed





section \<open>One update per matching node\<close>

text \<open>
  C7 (as amended).  When \<^verbatim>\<open>replace\<close> passes its guard, for every enumerated node that
  exposes \<^verbatim>\<open>setProps\<close> and whose resolved URL is in the selection, exactly one property
  update is issued on that node, and it sets both \<^verbatim>\<open>image\<close> and \<^verbatim>\<open>src\<close> to the replacement
  URL, whichever slot held the match.
\<close>

theorem replace_updates_both_slots:
  assumes "newUrl w \<noteq> []" "targets_of (selected w) \<noteq> []"
    and "has_getNodes (framer w)" "i < length (canvas (framer w))"
    and "is_target (targets_of (selected w)) (node_url (canvas (framer w) ! i))"
    and "has_setProps (canvas (framer w) ! i)"
  shows "filter (is_SetProps_on i) (effects (final_world (replace net w)))
           = filter (is_SetProps_on i) (effects w)
             @ [SetProps i [(''image'', Str (newUrl w)), (''src'', Str (newUrl w))]]"
  unfolding replace_effects_on_node[OF assms(1,2)] using assms(3-6)
  by (simp add: node_effects_filter getNodes_def)


text \<open>The second node of the example holds \<open>url_a\<close> in its \<^verbatim>\<open>src\<close> slot only.\<close>

theorem replace_updates_both_slots_witness:
  "node_url (canvas (framer example_world) ! 1) = Str url_a
   \<and> filter (is_SetProps_on 1) (effects (final_world (replace example_net example_world)))
       = [SetProps 1 [(''image'', Str url_c), (''src'', Str url_c)]]"
proof -
  have n: "newUrl example_world \<noteq> []" by (simp add: example_defs url_defs)
  have t: "targets_of (selected example_world) \<noteq> []" by (simp add: example_defs targets_of_def)
  have g: "has_getNodes (framer example_world)" by (simp add: example_defs)
  have i: "1 < length (canvas (framer example_world))" by (simp add: example_defs)
  have u: "node_url (canvas (framer example_world) ! 1) = Str url_a"
    by (simp add: example_defs node_url_def js_or_def)
  have h: "is_target (targets_of (selected example_world)) (node_url (canvas (framer example_world) ! 1))"
    unfolding u by (simp add: example_defs targets_of_def is_target_def)
  have s: "has_setProps (canvas (framer example_world) ! 1)" by (simp add: example_defs)
  from replace_updates_both_slots[OF n t g i h s, of example_net] u show ?thesis
    by (simp add: example_defs)
qed


text \<open>
  The claim as stated fails for a node that does not expose \<^verbatim>\<open>setProps\<close>: the call is
  \<^verbatim>\<open>node.setProps?.(...)\<close>, so for such a node, although its resolved URL is selected and
  the guard is passed, no property update is issued.
\<close>

theorem replace_without_setProps_counterexample:
  "newUrl (example_world\<lparr>framer := example_host\<lparr>canvas :=
       [\<lparr>props = Some ((\<lambda>_. Undefined)(''image'' := Str url_a)), has_setProps = False\<rparr>]\<rparr>\<rparr>) = url_c
   \<and> targets_of (selected (example_world\<lparr>framer := example_host\<lparr>canvas :=
       [\<lparr>props = Some ((\<lambda>_. Undefined)(''image'' := Str url_a)), has_setProps = False\<rparr>]\<rparr>\<rparr>)) = [url_a]
   \<and> map node_url (getNodes (framer (example_world\<lparr>framer := example_host\<lparr>canvas :=
       [\<lparr>props = Some ((\<lambda>_. Undefined)(''image'' := Str url_a)), has_setProps = False\<rparr>]\<rparr>\<rparr>)))
       = [Str url_a]
   \<and> filter (is_SetProps_on 0)
        (effects (final_world (replace example_net (example_world\<lparr>framer := example_host\<lparr>canvas :=
           [\<lparr>props = Some ((\<lambda>_. Undefined)(''image'' := Str url_a)), has_setProps = False\<rparr>]\<rparr>\<rparr>))))
       = []"
  by code_simp

section \<open>Matching by equality\<close>








section \<open>The project after a replacement\<close>







end
